theory Spec2Isabelle
  imports Main "HOL-Library.Word"
begin

unbundle bit_operations_syntax

section \<open>Machine types and outcomes\<close>

text \<open>
  C++ \<open>int\<close> and \<open>unsigned int\<close> are 32-bit words (\<open>sint\<close> reads an \<open>int\<close>),
  \<open>uint64_t\<close> and an SQLite INTEGER column are 64-bit words, \<open>uint8_t\<close> is a byte.
\<close>

type_synonym c_int = "32 word"
type_synonym c_uint = "32 word"
type_synonym uint64 = "64 word"
type_synonym byte = "8 word"

text \<open>
  Every way a call can leave other than by returning: the three exception types the
  sources throw (\<open>throw new runtime_error\<close> throws a pointer, \<open>throw std::runtime_error\<close>
  and \<open>throw CTBException\<close> throw objects), a failed \<open>assert\<close>, a \<open>mutex.lock()\<close> on a
  mutex that is never unlocked (the call does not return), and four kinds of undefined
  behaviour in C++: a call through a null pointer, signed overflow of an \<open>int\<close>, the use
  of an SQLite statement after it has been finalized, and control reaching the end of a
  function that returns a value.
\<close>

datatype failure =
    Thrown_runtime_error_ptr string
  | Thrown_runtime_error string
  | Thrown_CTBException string
  | Assertion_failed
  | Blocked_on_mutex
  | Null_dereference
  | Signed_overflow
  | Use_after_free
  | Missing_return

section \<open>MBTiler: the tile store (src/MBTiler.cpp, src/MBTiler.hpp)\<close>

subsection \<open>The SQLite boundary\<close>

text \<open>
  The persisted table \<open>tiles(zoom_level, tile_column, tile_row, tile_data)\<close> is a list of
  rows in insertion order; it has no index and no uniqueness constraint. The result codes
  are SQLite's.
\<close>

record tile_record =
  zoom_level :: uint64
  tile_column :: uint64
  tile_row :: uint64
  tile_data :: "byte list"

type_synonym db_file = "tile_record list"

definition SQLITE_OK :: int where "SQLITE_OK = 0"
definition SQLITE_ROW :: int where "SQLITE_ROW = 100"
definition SQLITE_DONE :: int where "SQLITE_DONE = 101"

text \<open>\<open>sqlite3_bind_int\<close> stores a C \<open>int\<close> as a 64-bit INTEGER (sign extended);
  \<open>sqlite3_column_int\<close> reads the low 32 bits of the stored INTEGER as a C \<open>int\<close>.\<close>

definition sqlite3_bind_int :: "c_int \<Rightarrow> uint64" where
  "sqlite3_bind_int v = scast v"

definition sqlite3_column_int :: "uint64 \<Rightarrow> c_int" where
  "sqlite3_column_int v = ucast v"

text \<open>
  One \<open>sqlite3_step\<close> of the SELECT over the table either fetches the next row or fails;
  when nothing is left it reports SQLITE_DONE. \<open>select_tiles fault rows\<close> is what the
  statement yields over a table: every row in order, or, when an I/O fault strikes at
  row \<open>n\<close>, the rows before it and then the fault.
\<close>

datatype fetched = Row tile_record | Fault

definition select_tiles :: "nat option \<Rightarrow> db_file \<Rightarrow> fetched list" where
  "select_tiles fault rows =
     (case fault of None \<Rightarrow> map Row rows | Some n \<Rightarrow> map Row (take n rows) @ [Fault])"

subsection \<open>The store object\<close>

text \<open>
  A prepared-statement pointer is null, points to a live statement, or points to a
  statement that has been finalized (freed). \<open>sqlite3_finalize\<close> does nothing on a null
  pointer and frees a live statement; SQLite documents any use of a finalized statement
  as undefined behaviour.
\<close>

datatype stmt_ptr = Null_stmt | Live_stmt | Finalized_stmt

fun sqlite3_finalize :: "stmt_ptr \<Rightarrow> failure + stmt_ptr" where
  "sqlite3_finalize Null_stmt = Inr Null_stmt"
| "sqlite3_finalize Live_stmt = Inr Finalized_stmt"
| "sqlite3_finalize Finalized_stmt = Inl Use_after_free"

text \<open>
  The fields of \<open>class MBTiler\<close> that the operations read or write: the open database
  (\<open>db\<close>, the complete records of its table), the in-memory set \<open>tiles\<close> of packed
  identifiers, the mutex \<open>mtx\<close> (\<open>True\<close> when locked) and the two prepared statements.
  The constructor sets \<open>journal_mode=OFF\<close>, so a failed statement is not rolled back:
  \<open>partial_pages\<close> tells whether the file holds pages written by an INSERT that failed
  part-way. Such a file is no longer well-formed, and \<open>db\<close> then says nothing about what
  can be read from it.
\<close>

record MBTiler =
  db :: db_file
  tiles :: "uint64 set"
  mtx :: bool
  insertTileStmt :: stmt_ptr
  replaceMetaStmt :: stmt_ptr
  partial_pages :: bool

text \<open>The expression \<open>(z << 58) | (x << 29) | y\<close> on \<open>uint64_t\<close>, written out in
  \<open>loadTiles\<close> and in \<open>testTileExists\<close>.\<close>

definition tile_id :: "uint64 \<Rightarrow> uint64 \<Rightarrow> uint64 \<Rightarrow> uint64" where
  "tile_id z x y = push_bit 58 z OR push_bit 29 x OR y"

text \<open>\<open>loadTiles\<close>: the \<open>while (true)\<close> loop over \<open>sqlite3_step\<close>. Each column is read
  with \<open>sqlite3_column_int\<close> and converted from \<open>int\<close> to \<open>uint64_t\<close> (sign extension).\<close>

fun loadTiles :: "fetched list \<Rightarrow> uint64 set \<Rightarrow> failure + uint64 set" where
  "loadTiles (Row r # rest) ts =
     (let z = scast (sqlite3_column_int (zoom_level r)) :: uint64;
          x = scast (sqlite3_column_int (tile_column r)) :: uint64;
          y = scast (sqlite3_column_int (tile_row r)) :: uint64
      in loadTiles rest (insert (tile_id z x y) ts))"
| "loadTiles [] ts = Inr ts"
| "loadTiles (Fault # rest) ts =
     Inl (Thrown_runtime_error ''Could not fetch rendered rows from database'')"

text \<open>
  The constructor: \<open>sqlite3_open\<close>, six \<open>exec\<close> calls (three PRAGMAs, and
  CREATE ... IF NOT EXISTS for the two tables and the metadata index, none of which
  changes an existing \<open>tiles\<close> table), two \<open>sqlite3_prepare_v2\<close> calls whose results are
  not checked (a failed prepare leaves the pointer null), then \<open>loadTiles\<close>. The
  environment gives the result code of the open, the result code and message of the
  \<open>i\<close>-th \<open>exec\<close>, whether each prepare succeeds, and the fault of the SELECT if any. The
  file given is a well-formed one: its table of complete records.
\<close>

record open_env =
  open_rc :: int
  exec_rc :: "nat \<Rightarrow> int \<times> string"
  insert_prepared :: bool
  replace_prepared :: bool
  select_fault :: "nat option"

definition exec :: "int \<times> string \<Rightarrow> failure + unit" where
  "exec r = (if fst r \<noteq> SQLITE_OK
     then Inl (Thrown_runtime_error_ptr (''SQLite Error: '' @ snd r)) else Inr ())"

fun exec_all :: "(int \<times> string) list \<Rightarrow> failure + unit" where
  "exec_all [] = Inr ()"
| "exec_all (r # rs) = (case exec r of Inl e \<Rightarrow> Inl e | Inr _ \<Rightarrow> exec_all rs)"

definition MBTiler_open :: "open_env \<Rightarrow> db_file \<Rightarrow> failure + MBTiler" where
  "MBTiler_open env file =
     (if open_rc env \<noteq> SQLITE_OK
      then Inl (Thrown_runtime_error_ptr ''Could not open the SQLite database'')
      else case exec_all (map (exec_rc env) [0..<6]) of
        Inl e \<Rightarrow> Inl e
      | Inr _ \<Rightarrow>
          (case loadTiles (select_tiles (select_fault env) file) {} of
             Inl e \<Rightarrow> Inl e
           | Inr ts \<Rightarrow>
               Inr \<lparr>db = file, tiles = ts, mtx = False,
                    insertTileStmt = (if insert_prepared env then Live_stmt else Null_stmt),
                    replaceMetaStmt = (if replace_prepared env then Live_stmt else Null_stmt),
                    partial_pages = False\<rparr>))"

text \<open>
  The destructor, statement by statement:
  \<open>if (insertTileStmt != NULL) sqlite3_finalize(insertTileStmt);\<close>
  \<open>if (replaceMetaStmt != NULL) sqlite3_finalize(insertTileStmt);\<close>
  \<open>if (db != NULL) sqlite3_close(db);\<close>.
  Finalizing does not reset the pointer, so after the first statement \<open>insertTileStmt\<close>
  is still non-null; the second statement finalizes \<open>insertTileStmt\<close> again and never
  \<open>replaceMetaStmt\<close>. The result of \<open>sqlite3_close\<close> is not looked at. The result is the
  outcome and the object's fields at that point.
\<close>

definition MBTiler_destructor :: "MBTiler \<Rightarrow> (failure + unit) \<times> MBTiler" where
  "MBTiler_destructor s =
     (case (if insertTileStmt s \<noteq> Null_stmt then sqlite3_finalize (insertTileStmt s)
            else Inr (insertTileStmt s)) of
        Inl e \<Rightarrow> (Inl e, s)
      | Inr p \<Rightarrow>
          let s1 = s\<lparr>insertTileStmt := p\<rparr> in
          (case (if replaceMetaStmt s1 \<noteq> Null_stmt then sqlite3_finalize (insertTileStmt s1)
                 else Inr (insertTileStmt s1)) of
             Inl e \<Rightarrow> (Inl e, s1)
           | Inr p' \<Rightarrow> (Inr (), s1\<lparr>insertTileStmt := p'\<rparr>)))"

text \<open>
  \<open>insertBlob\<close>: lock, reset and bind the prepared INSERT, step it, unlock. The
  environment gives the result code of the \<open>sqlite3_step\<close>, the text of
  \<open>sqlite3_errmsg\<close> and, for a step that fails, whether it had already written pages of
  the record to the file: with \<open>journal_mode=OFF\<close> nothing undoes them. The complete record
  is in the table exactly when the step reports SQLITE_DONE. (On a null statement the
  step reports SQLITE_MISUSE, one of the results the environment can give.)
  The \<open>throw\<close> leaves the function between \<open>mtx.lock()\<close> and \<open>mtx.unlock()\<close>.
\<close>

definition insertBlob ::
  "int \<times> string \<times> bool \<Rightarrow> byte list \<Rightarrow> c_int \<Rightarrow> c_int \<Rightarrow> c_int \<Rightarrow> MBTiler
     \<Rightarrow> (failure + unit) \<times> MBTiler" where
  "insertBlob step blob zoom tileColumn tileRow s =
     (if mtx s then (Inl Blocked_on_mutex, s)
      else
        let s1 = s\<lparr>mtx := True\<rparr>;
            r = \<lparr>zoom_level = sqlite3_bind_int zoom,
                 tile_column = sqlite3_bind_int tileColumn,
                 tile_row = sqlite3_bind_int tileRow,
                 tile_data = blob\<rparr>
        in if fst step \<noteq> SQLITE_DONE
           then (Inl (Thrown_runtime_error_ptr (''SQLite Error: '' @ fst (snd step))),
                 s1\<lparr>partial_pages := partial_pages s1 \<or> snd (snd step)\<rparr>)
           else (Inr (), s1\<lparr>db := db s1 @ [r], mtx := False\<rparr>))"

text \<open>\<open>testTileExists\<close>: the three \<open>unsigned int\<close> arguments are cast to \<open>uint64_t\<close>
  (zero extension), packed, and looked up in \<open>tiles\<close>.\<close>

definition testTileExists :: "MBTiler \<Rightarrow> c_uint \<Rightarrow> c_uint \<Rightarrow> c_uint \<Rightarrow> bool" where
  "testTileExists s zoom tileColumn tileRow =
     (tile_id (ucast zoom) (ucast tileColumn) (ucast tileRow) \<in> tiles s)"


section \<open>CTBMBTilesTileSerializer (CTBMBTilesTileSerializer.cpp)\<close>

text \<open>
  Modelled from the spec: \<open>TileCoordinate\<close> is declared outside the sources at hand; the
  spec gives it as "{zoom: unsigned integer, x: unsigned integer, y: unsigned integer}".
  Its three fields are passed to \<open>testTileExists\<close> as \<open>unsigned int\<close> and to \<open>insertBlob\<close>
  as \<open>int\<close>, and are kept here at that width. The serializer holds a pointer to the store (\<open>None\<close> is the null
  pointer) and the \<open>resume\<close> flag.
\<close>

record TileCoordinate =
  zoom :: c_uint
  x :: c_uint
  y :: c_uint

definition mustSerializeCoordinate ::
  "bool \<Rightarrow> MBTiler option \<Rightarrow> TileCoordinate \<Rightarrow> failure + bool" where
  "mustSerializeCoordinate resume mbtiler coordinate =
     (if \<not> resume then Inr True
      else case mbtiler of
        None \<Rightarrow> Inl Null_dereference
      | Some m \<Rightarrow> Inr (\<not> testTileExists m (zoom coordinate) (x coordinate) (y coordinate)))"

section \<open>CTBZOutputStream: the in-memory gzip stream (CTBZOutputStream.cpp)\<close>

text \<open>
  zlib is a library outside the repository. Its \<open>z_stream\<close> is the unread input
  (\<open>next_in\<close>; \<open>avail_in\<close> is its length) and the library's internal state of type
  \<open>'z\<close>. The two library functions the class calls after construction are parameters:
  \<open>deflate strm avail_out flush\<close> gives the return code, the bytes written to
  \<open>next_out\<close> and the stream afterwards; \<open>deflateReset\<close> gives the stream afterwards.
\<close>

record 'z z_stream =
  next_in :: "byte list"
  internal :: 'z

record 'z zlib =
  deflate :: "'z z_stream \<Rightarrow> nat \<Rightarrow> int \<Rightarrow> int \<times> byte list \<times> 'z z_stream"
  deflateReset :: "'z z_stream \<Rightarrow> 'z z_stream"

definition Z_NO_FLUSH :: int where "Z_NO_FLUSH = 0"
definition Z_FINISH :: int where "Z_FINISH = 4"
definition Z_STREAM_ERROR :: int where "Z_STREAM_ERROR = - 2"
definition TMPSIZE :: nat where "TMPSIZE = 4 * 1024"

record 'z CTBZOutputStream =
  stream :: "'z z_stream"
  buffer :: "byte list"

text \<open>
  The \<open>do ... while (stream.avail_out == 0)\<close> loop of \<open>deflateRound\<close>. Each round offers
  \<open>TMPSIZE\<close> bytes of output space, throws on \<open>Z_STREAM_ERROR\<close>, and appends what was
  written to \<open>buffer\<close>. Nothing in the code bounds the number of rounds: \<open>None\<close> is a
  loop that never ends.
\<close>

partial_function (option) deflateRound_loop ::
  "'z zlib \<Rightarrow> int \<Rightarrow> 'z CTBZOutputStream \<Rightarrow> ((failure + unit) \<times> 'z CTBZOutputStream) option" where
  "deflateRound_loop zl flush s =
     (case deflate zl (stream s) TMPSIZE flush of (ret, out, strm') \<Rightarrow>
        if ret = Z_STREAM_ERROR
        then Some (Inl (Thrown_CTBException ''Compression failed''), s\<lparr>stream := strm'\<rparr>)
        else
          let written = take TMPSIZE out;
              avail_out = TMPSIZE - length written;
              s' = s\<lparr>stream := strm', buffer := buffer s @ written\<rparr>
          in if avail_out = 0 then deflateRound_loop zl flush s' else Some (Inr (), s'))"

text \<open>\<open>deflateRound\<close>: set the input, run the loop, then \<open>assert(stream.avail_in == 0)\<close>.\<close>

definition deflateRound ::
  "'z zlib \<Rightarrow> byte list \<Rightarrow> int \<Rightarrow> 'z CTBZOutputStream \<Rightarrow> ((failure + unit) \<times> 'z CTBZOutputStream) option" where
  "deflateRound zl data flush s =
     (case deflateRound_loop zl flush (s\<lparr>stream := (stream s)\<lparr>next_in := data\<rparr>\<rparr>) of
        None \<Rightarrow> None
      | Some (Inl e, s') \<Rightarrow> Some (Inl e, s')
      | Some (Inr _, s') \<Rightarrow>
          if next_in (stream s') \<noteq> [] then Some (Inl Assertion_failed, s') else Some (Inr (), s'))"

text \<open>
  \<open>write\<close> (\<open>write_z\<close> here) is declared to return \<open>uint32_t\<close>; its body is the call of
  \<open>deflateRound\<close> and nothing else. An exception of \<open>deflateRound\<close> leaves it; otherwise
  control reaches the end of the function without a \<open>return\<close> statement, which is
  undefined behaviour on every such call.
\<close>

definition write_z ::
  "'z zlib \<Rightarrow> byte list \<Rightarrow> 'z CTBZOutputStream \<Rightarrow> ((failure + unit) \<times> 'z CTBZOutputStream) option" where
  "write_z zl ptr s =
     (case deflateRound zl ptr Z_NO_FLUSH s of
        None \<Rightarrow> None
      | Some (Inl e, s') \<Rightarrow> Some (Inl e, s')
      | Some (Inr _, s') \<Rightarrow> Some (Inl Missing_return, s'))"

definition finish ::
  "'z zlib \<Rightarrow> 'z CTBZOutputStream \<Rightarrow> ((failure + unit) \<times> 'z CTBZOutputStream) option" where
  "finish zl s = deflateRound zl [] Z_FINISH s"

definition reset :: "'z zlib \<Rightarrow> 'z CTBZOutputStream \<Rightarrow> 'z CTBZOutputStream" where
  "reset zl s = s\<lparr>buffer := [], stream := deflateReset zl (stream s)\<rparr>"

subsection \<open>serializeTile\<close>

text \<open>
  Modelled from the spec: \<open>MeshTile::writeFile(CTBOutputStream &, bool)\<close> is outside the
  sources at hand; the spec says the serializer "streams the full payload through" the
  compressor. A tile is its coordinate and, for either value of \<open>writeVertexNormals\<close>,
  the sequence of blocks that \<open>writeFile\<close> passes to \<open>write\<close>, one call each; an
  exception thrown by a \<open>write\<close> ends it.
\<close>

record MeshTile = TileCoordinate +
  file_blocks :: "bool \<Rightarrow> byte list list"

fun writeFile ::
  "'z zlib \<Rightarrow> byte list list \<Rightarrow> 'z CTBZOutputStream \<Rightarrow> ((failure + unit) \<times> 'z CTBZOutputStream) option" where
  "writeFile zl [] s = Some (Inr (), s)"
| "writeFile zl (b # bs) s =
     (case write_z zl b s of
        None \<Rightarrow> None
      | Some (Inl e, s') \<Rightarrow> Some (Inl e, s')
      | Some (Inr _, s') \<Rightarrow> writeFile zl bs s')"

text \<open>
  \<open>serializeTile\<close>: \<open>assert(mbtiler)\<close>, \<open>reset\<close>, \<open>writeFile\<close>, \<open>finish\<close>, then
  \<open>insertBlob\<close> of \<open>data()\<close>/\<open>size()\<close> (the buffer) at the tile's coordinate, and
  \<open>return true\<close>. The result is the outcome, the serializer's \<open>gzipStream\<close> and the
  store behind the pointer.
\<close>

definition serializeTile ::
  "'z zlib \<Rightarrow> int \<times> string \<times> bool \<Rightarrow> 'a MeshTile_scheme \<Rightarrow> bool \<Rightarrow> MBTiler option
     \<Rightarrow> 'z CTBZOutputStream
     \<Rightarrow> ((failure + bool) \<times> 'z CTBZOutputStream \<times> MBTiler option) option" where
  "serializeTile zl step tile writeVertexNormals mbtiler gzipStream =
     (case mbtiler of
        None \<Rightarrow> Some (Inl Assertion_failed, gzipStream, None)
      | Some m \<Rightarrow>
          (case writeFile zl (file_blocks tile writeVertexNormals) (reset zl gzipStream) of
             None \<Rightarrow> None
           | Some (Inl e, gz) \<Rightarrow> Some (Inl e, gz, Some m)
           | Some (Inr _, gz) \<Rightarrow>
               (case finish zl gz of
                  None \<Rightarrow> None
                | Some (Inl e, gz') \<Rightarrow> Some (Inl e, gz', Some m)
                | Some (Inr _, gz') \<Rightarrow>
                    (case insertBlob step (buffer gz') (zoom tile) (x tile) (y tile) m of
                       (Inl e, m') \<Rightarrow> Some (Inl e, gz', Some m')
                     | (Inr _, m') \<Rightarrow> Some (Inr True, gz', Some m')))))"


section \<open>The driver (tools/ctb-tile.cpp)\<close>

subsection \<open>incrementIterator\<close>

text \<open>
  Modelled from the spec: the iterator classes (\<open>TerrainIterator\<close>, \<open>RasterIterator\<close>)
  are outside the sources at hand. The spec gives each worker "a private cursor
  initialized to the start of the enumeration" that supports "only forward
  single-stepping", the enumeration being "exhausted when the cursor can no longer
  advance". A cursor is the part of the canonical enumeration still ahead of it:
  \<open>*iter\<close> is its head, \<open>++iter\<close> drops the head and leaves an exhausted cursor as it
  is, \<open>exhausted\<close> is emptiness.
\<close>

type_synonym 'a iterator = "'a list"

definition exhausted :: "'a iterator \<Rightarrow> bool" where
  "exhausted iter = (iter = [])"

definition increment :: "'a iterator \<Rightarrow> 'a iterator" where
  "increment iter = (case iter of [] \<Rightarrow> [] | _ # rest \<Rightarrow> rest)"

definition INT_MAX :: int where "INT_MAX = 2147483647"

text \<open>The catch-up loop \<open>while (currentIndex < globalIteratorIndex) { ++iter;
  ++currentIndex; }\<close>. \<open>currentIndex\<close> stays below \<open>globalIteratorIndex\<close>, an \<open>int\<close>,
  so its increment cannot overflow.\<close>

function catch_up :: "int \<Rightarrow> 'a iterator \<Rightarrow> int \<Rightarrow> 'a iterator \<times> int" where
  "catch_up globalIteratorIndex iter currentIndex =
     (if currentIndex < globalIteratorIndex
      then catch_up globalIteratorIndex (increment iter) (currentIndex + 1)
      else (iter, currentIndex))"
  by pat_completeness auto
termination
  by (relation "measure (\<lambda>(g, iter, c). nat (g - c))") auto

declare catch_up.simps [simp del]

text \<open>
  \<open>incrementIterator\<close>, the body between \<open>mutex.lock()\<close> and \<open>mutex.unlock()\<close>: it is
  given the caller's iterator and index and the static \<open>globalIteratorIndex\<close>, and
  gives the returned index, the iterator and the counter afterwards.
  \<open>++globalIteratorIndex\<close> at \<open>INT_MAX\<close> is signed overflow.
\<close>

definition incrementIterator ::
  "'a iterator \<Rightarrow> int \<Rightarrow> int \<Rightarrow> failure + (int \<times> 'a iterator \<times> int)" where
  "incrementIterator iter currentIndex globalIteratorIndex =
     (case catch_up globalIteratorIndex iter currentIndex of (iter', currentIndex') \<Rightarrow>
        if globalIteratorIndex = INT_MAX then Inl Signed_overflow
        else Inr (currentIndex', iter', globalIteratorIndex + 1))"

subsection \<open>Workers claiming tiles\<close>

text \<open>
  The loop of \<open>buildTerrain\<close> and \<open>buildGDAL\<close>:
  \<open>currentIndex = incrementIterator(iter, 0); while (!iter.exhausted()) { ... *iter ...;
  currentIndex = incrementIterator(iter, currentIndex); }\<close>.
  A worker is its private iterator, its private index and whether it has left the loop.
  The mutex makes each call of \<open>incrementIterator\<close> one indivisible step; the tile is
  built outside the mutex and touches none of this state. A step of worker \<open>w\<close> is its
  next call together with the test of \<open>exhausted\<close> that follows: the worker either takes
  \<open>*iter\<close> to build it or leaves the loop. \<open>claims\<close> records every call in the order
  the mutex was granted: the worker, the index returned, and the coordinate taken
  (\<open>None\<close> when the iterator was exhausted).
\<close>

record 'a worker =
  iter :: "'a iterator"
  currentIndex :: int
  left_loop :: bool

record 'a build =
  globalIteratorIndex :: int
  workers :: "'a worker list"
  claims :: "(nat \<times> int \<times> 'a option) list"

definition start :: "'a list \<Rightarrow> nat \<Rightarrow> 'a build" where
  "start enumeration W =
     \<lparr>globalIteratorIndex = 0,
      workers = replicate W \<lparr>iter = enumeration, currentIndex = 0, left_loop = False\<rparr>,
      claims = []\<rparr>"

definition worker_step :: "nat \<Rightarrow> 'a build \<Rightarrow> failure + 'a build" where
  "worker_step w st =
     (if length (workers st) \<le> w \<or> left_loop (workers st ! w) then Inr st
      else case incrementIterator (iter (workers st ! w)) (currentIndex (workers st ! w))
                  (globalIteratorIndex st) of
        Inl e \<Rightarrow> Inl e
      | Inr (c, it, g) \<Rightarrow>
          Inr \<lparr>globalIteratorIndex = g,
               workers = (workers st)[w := \<lparr>iter = it, currentIndex = c, left_loop = exhausted it\<rparr>],
               claims = claims st @ [(w, c, if exhausted it then None else Some (hd it))]\<rparr>)"

text \<open>A run follows a schedule: the order in which the workers are granted the mutex.\<close>

fun run :: "nat list \<Rightarrow> 'a build \<Rightarrow> failure + 'a build" where
  "run [] st = Inr st"
| "run (w # ws) st = (case worker_step w st of Inl e \<Rightarrow> Inl e | Inr st' \<Rightarrow> run ws st')"

definition all_left :: "'a build \<Rightarrow> bool" where
  "all_left st = list_all left_loop (workers st)"

definition claimed_indices :: "'a build \<Rightarrow> int list" where
  "claimed_indices st = map (\<lambda>c. fst (snd c)) (claims st)"

definition claimed_coordinates :: "'a build \<Rightarrow> 'a list" where
  "claimed_coordinates st = List.map_filter (\<lambda>c. snd (snd c)) (claims st)"

text \<open>
  The invariant of a run over the canonical enumeration with \<open>W\<close> workers: every
  worker's iterator stands at its index, which is at most the global counter; a worker
  that left its loop found its iterator exhausted; the calls so far returned the indices
  \<open>0, 1, ...\<close> up to the counter, in that order, and took the coordinates of the
  enumeration in that order; and the counter exceeds the length of the enumeration by at
  most the number of workers that have left.
\<close>

definition coordinated :: "'a list \<Rightarrow> nat \<Rightarrow> 'a build \<Rightarrow> bool" where
  "coordinated enumeration W st =
     (0 \<le> globalIteratorIndex st
      \<and> length (workers st) = W
      \<and> (\<forall>wk \<in> set (workers st).
            0 \<le> currentIndex wk \<and> currentIndex wk \<le> globalIteratorIndex st
            \<and> iter wk = drop (nat (currentIndex wk)) enumeration
            \<and> (left_loop wk \<longrightarrow> int (length enumeration) \<le> currentIndex wk))
      \<and> claimed_indices st = map int [0..<nat (globalIteratorIndex st)]
      \<and> claimed_coordinates st = take (nat (globalIteratorIndex st)) enumeration
      \<and> globalIteratorIndex st
           \<le> int (length enumeration) + int (length (filter left_loop (workers st))))"

text \<open>A measure of progress: \<open>k w\<close> counts the steps granted to worker \<open>w\<close>. A worker that
  is still in its loop after \<open>k w > 0\<close> steps holds an index of at least \<open>k w - 1\<close>, below
  the length of the enumeration and below the counter.\<close>

definition paced :: "'a list \<Rightarrow> (nat \<Rightarrow> nat) \<Rightarrow> 'a build \<Rightarrow> bool" where
  "paced enumeration k st =
     (\<forall>w < length (workers st).
        \<not> left_loop (workers st ! w) \<and> 0 < k w \<longrightarrow>
          int (k w) \<le> currentIndex (workers st ! w) + 1
          \<and> currentIndex (workers st ! w) < int (length enumeration)
          \<and> currentIndex (workers st ! w) < globalIteratorIndex st)"

subsection \<open>runTiler and main\<close>

text \<open>
  \<open>runTiler\<close>: the worker's thread function. It is given whether \<open>GDALOpen\<close> succeeded
  and how the build (\<open>buildTerrain\<close> or \<open>buildGDAL\<close>) ended: \<open>None\<close> when it returned, or
  what it threw. It gives the lines written to \<open>cerr\<close> and either the \<open>int\<close> returned
  or the exception that leaves the function, which the \<open>packaged_task\<close> stores in the
  future. Only \<open>CTBException\<close> is caught.
\<close>

definition runTiler :: "bool \<Rightarrow> failure option \<Rightarrow> string list \<times> (failure + int)" where
  "runTiler dataset_opened build_end =
     (if \<not> dataset_opened then ([''Error: could not open GDAL dataset''], Inr 1)
      else case build_end of
        None \<Rightarrow> ([], Inr 0)
      | Some (Thrown_CTBException what) \<Rightarrow> ([''Error: '' @ what], Inr 0)
      | Some e \<Rightarrow> ([], Inl e))"

text \<open>The last loop of \<open>main\<close>, after every task has been waited for: \<open>task.get()\<close>
  returns the worker's value or rethrows its exception; the first non-zero value is
  returned, and \<open>0\<close> when there is none.\<close>

fun first_problem :: "(failure + int) list \<Rightarrow> failure + int" where
  "first_problem [] = Inr 0"
| "first_problem (Inl e # tasks) = Inl e"
| "first_problem (Inr retval # tasks) = (if retval \<noteq> 0 then Inr retval else first_problem tasks)"

text \<open>\<open>main\<close> from the choice of the grid on: an unknown profile returns 1; otherwise one
  task per thread runs \<open>runTiler\<close>, and the results are collected.\<close>

definition main :: "string \<Rightarrow> (bool \<times> failure option) list \<Rightarrow> failure + int" where
  "main profile threads =
     (if profile \<noteq> ''geodetic'' \<and> profile \<noteq> ''mercator'' then Inr 1
      else first_problem (map (\<lambda>(opened, build_end). snd (runTiler opened build_end)) threads))"

section \<open>Scenarios\<close>

text \<open>An environment in which SQLite reports no error, the store as constructed on an
  empty file, a step result for a successful insert, one for a full disk (SQLITE_FULL)
  noticed before anything is written, one for an I/O error (SQLITE_IOERR) after part of
  the record has been written, and the five coordinates of the build scenario.\<close>

definition healthy :: open_env where
  "healthy = \<lparr>open_rc = SQLITE_OK, exec_rc = (\<lambda>i. (SQLITE_OK, [])),
     insert_prepared = True, replace_prepared = True, select_fault = None\<rparr>"

definition empty_store :: MBTiler where
  "empty_store = \<lparr>db = [], tiles = {}, mtx = False, insertTileStmt = Live_stmt,
     replaceMetaStmt = Live_stmt, partial_pages = False\<rparr>"

definition step_done :: "int \<times> string \<times> bool" where
  "step_done = (SQLITE_DONE, [], False)"

definition step_full :: "int \<times> string \<times> bool" where
  "step_full = (13, ''database or disk is full'', False)"


definition coord :: "c_uint \<Rightarrow> c_uint \<Rightarrow> c_uint \<Rightarrow> TileCoordinate" where
  "coord z col row = \<lparr>zoom = z, x = col, y = row\<rparr>"

definition five_coordinates :: "TileCoordinate list" where
  "five_coordinates = [coord 0 0 0, coord 0 1 0, coord 0 0 1, coord 0 1 1, coord 1 0 0]"


definition copying_zlib :: "unit zlib" where
  "copying_zlib = \<lparr>deflate = (\<lambda>strm n flush. (if flush = Z_FINISH then 1 else 0, take n (next_in strm), strm\<lparr>next_in := drop n (next_in strm)\<rparr>)),
     deflateReset = (\<lambda>strm. strm\<lparr>next_in := []\<rparr>)\<rparr>"



definition fresh_stream :: "unit CTBZOutputStream" where
  "fresh_stream = \<lparr>stream = \<lparr>next_in = [], internal = ()\<rparr>, buffer = []\<rparr>"

text \<open>An order in which two workers are granted the mutex, six times each.\<close>

definition two_worker_schedule :: "nat list" where
  "two_worker_schedule = [0, 1, 1, 0, 0, 1, 0, 1, 1, 0, 0, 1]"



section \<open>The packed identifier\<close>

lemma bit_below:
  fixes w :: "'a::len word"
  assumes "w < 2 ^ n" "bit w i" shows "i < n"
proof -
  have "w AND mask n = w" using assms(1) by (rule less_mask_eq)
  then have "bit (w AND mask n) i" using assms(2) by simp
  then show ?thesis by (simp add: bit_and_iff bit_mask_iff)
qed

lemmas bit_below29 = bit_below [where n = 29 and 'a = 64, simplified]
lemmas bit_below6 = bit_below [where n = 6 and 'a = 64, simplified]

lemma tile_id_low: "b < 2 ^ 29 \<Longrightarrow> c < 2 ^ 29 \<Longrightarrow> take_bit 29 (tile_id a b c) = c"
  unfolding tile_id_def
  by (rule bit_word_eqI) (auto simp: bit_simps dest: bit_below29 bit_below6)

lemma tile_id_mid: "b < 2 ^ 29 \<Longrightarrow> c < 2 ^ 29 \<Longrightarrow> take_bit 29 (drop_bit 29 (tile_id a b c)) = b"
  unfolding tile_id_def
  by (rule bit_word_eqI) (auto simp: bit_simps dest: bit_below29 bit_below6)

lemma tile_id_high:
  "a < 2 ^ 6 \<Longrightarrow> b < 2 ^ 29 \<Longrightarrow> c < 2 ^ 29 \<Longrightarrow> drop_bit 58 (tile_id a b c) = a"
  unfolding tile_id_def
  by (rule bit_word_eqI) (auto simp: bit_simps dest: bit_below29 bit_below6)

text \<open>
  C7. For zoom levels below \<open>2^6\<close> and columns and rows below \<open>2^29\<close>, the packed
  identifier \<open>(zoom << 58) | (x << 29) | y\<close> determines the coordinate: two coordinates
  with the same identifier are the same. Each field is recovered from its own bits.
\<close>

theorem tile_id_injective:
  assumes "z < 2 ^ 6" "col < 2 ^ 29" "row < 2 ^ 29"
    and "z' < 2 ^ 6" "col' < 2 ^ 29" "row' < 2 ^ 29"
    and eq: "tile_id z col row = tile_id z' col' row'"
  shows "z = z' \<and> col = col' \<and> row = row'"
proof -
  have "z = drop_bit 58 (tile_id z col row)"
    by (rule tile_id_high [symmetric]) fact+
  also have "\<dots> = drop_bit 58 (tile_id z' col' row')" by (simp only: eq)
  also have "\<dots> = z'" by (rule tile_id_high) fact+
  finally have 1: "z = z'" .
  have "col = take_bit 29 (drop_bit 29 (tile_id z col row))"
    by (rule tile_id_mid [symmetric]) fact+
  also have "\<dots> = take_bit 29 (drop_bit 29 (tile_id z' col' row'))" by (simp only: eq)
  also have "\<dots> = col'" by (rule tile_id_mid) fact+
  finally have 2: "col = col'" .
  have "row = take_bit 29 (tile_id z col row)"
    by (rule tile_id_low [symmetric]) fact+
  also have "\<dots> = take_bit 29 (tile_id z' col' row')" by (simp only: eq)
  also have "\<dots> = row'" by (rule tile_id_low) fact+
  finally have 3: "row = row'" .
  from 1 2 3 show ?thesis by simp
qed

theorem tile_id_injective_witness:
  "(3 :: uint64) < 2 ^ 6 \<and> (5 :: uint64) < 2 ^ 29 \<and> (7 :: uint64) < 2 ^ 29
   \<and> tile_id 3 5 7 = tile_id 3 5 7 \<and> (3 :: uint64) = 3 \<and> (5 :: uint64) = 5 \<and> (7 :: uint64) = 7"
  using tile_id_injective [of 3 5 7 3 5 7] by simp

section \<open>Closing the store and opening it again\<close>

lemma column_bind: "sqlite3_column_int (sqlite3_bind_int v) = v"
  unfolding sqlite3_column_int_def sqlite3_bind_int_def
  by (rule bit_word_eqI) (auto simp: bit_simps)

lemma scast_small:
  fixes v :: c_uint
  assumes "v < 2 ^ n" "n \<le> 31" shows "(scast v :: uint64) = ucast v"
proof (rule bit_word_eqI)
  fix i assume "i < LENGTH(64)"
  have low: "j < 31" if "bit v j" for j
    using bit_below [OF assms(1) that] assms(2) by simp
  show "bit (scast v :: uint64) i = bit (ucast v :: uint64) i"
  proof (cases "i < 31")
    case True
    then show ?thesis using \<open>i < LENGTH(64)\<close> by (simp add: bit_simps min_def)
  next
    case False
    then have "min 31 i = 31" by simp
    then show ?thesis using \<open>i < LENGTH(64)\<close> False low [of 31] low [of i]
      by (auto simp: bit_simps)
  qed
qed

lemma loadTiles_rows:
  "loadTiles (map Row rows) ts =
     Inr (ts \<union> (\<lambda>r. tile_id (scast (sqlite3_column_int (zoom_level r)))
                          (scast (sqlite3_column_int (tile_column r)))
                          (scast (sqlite3_column_int (tile_row r)))) ` set rows)"
  by (induction rows arbitrary: ts) (simp_all add: Let_def)

lemma loadTiles_fault:
  "loadTiles (map Row rows @ [Fault]) ts =
     Inl (Thrown_runtime_error ''Could not fetch rendered rows from database'')"
  by (induction rows arbitrary: ts) (simp_all add: Let_def)

lemma MBTiler_open_Inr:
  assumes "MBTiler_open env file = Inr m"
  shows "db m = file \<and> \<not> mtx m \<and> \<not> partial_pages m
    \<and> tiles m = (\<lambda>r. tile_id (scast (sqlite3_column_int (zoom_level r)))
                          (scast (sqlite3_column_int (tile_column r)))
                          (scast (sqlite3_column_int (tile_row r)))) ` set file"
  using assms
  by (auto simp: MBTiler_open_def select_tiles_def loadTiles_rows loadTiles_fault
      split: if_splits sum.splits option.splits)

lemma exec_all_ok: "\<forall>r \<in> set rs. fst r = SQLITE_OK \<Longrightarrow> exec_all rs = Inr ()"
  by (induction rs) (simp_all add: exec_def)

lemma MBTiler_open_healthy:
  "MBTiler_open healthy file =
     Inr \<lparr>db = file,
          tiles = (\<lambda>r. tile_id (scast (sqlite3_column_int (zoom_level r)))
                          (scast (sqlite3_column_int (tile_column r)))
                          (scast (sqlite3_column_int (tile_row r)))) ` set file,
          mtx = False, insertTileStmt = Live_stmt, replaceMetaStmt = Live_stmt,
          partial_pages = False\<rparr>"
  by (simp add: MBTiler_open_def healthy_def select_tiles_def loadTiles_rows exec_all_ok)

lemma insertBlob_Inr:
  assumes "insertBlob step blob z col row s = (Inr u, s')"
  shows "s' = s\<lparr>db := db s @ [\<lparr>zoom_level = sqlite3_bind_int z,
                 tile_column = sqlite3_bind_int col,
                 tile_row = sqlite3_bind_int row, tile_data = blob\<rparr>]\<rparr>
       \<and> \<not> mtx s \<and> fst step = SQLITE_DONE"
  using assms by (auto simp: insertBlob_def Let_def split: if_splits)

lemma insertBlob_done:
  "\<not> mtx s \<Longrightarrow> insertBlob step_done blob z col row s =
     (Inr (), s\<lparr>db := db s @ [\<lparr>zoom_level = sqlite3_bind_int z,
                 tile_column = sqlite3_bind_int col,
                 tile_row = sqlite3_bind_int row, tile_data = blob\<rparr>]\<rparr>)"
  by (simp add: insertBlob_def step_done_def Let_def)

text \<open>What the claim is after does hold of the table: once \<open>insertBlob\<close> for a coordinate
  within the 6/29/29-bit bounds has succeeded, every store that the constructor builds on
  the table as the store has it answers \<open>testTileExists\<close> for the coordinate with true.\<close>

lemma inserted_tile_is_loaded:
  assumes "zoom c < 2 ^ 6" "x c < 2 ^ 29" "y c < 2 ^ 29"
    and ins: "insertBlob step blob (zoom c) (x c) (y c) s = (Inr (), s')"
    and reopen: "MBTiler_open env (db s') = Inr s''"
  shows "testTileExists s'' (zoom c) (x c) (y c)"
proof -
  let ?r = "\<lparr>zoom_level = sqlite3_bind_int (zoom c), tile_column = sqlite3_bind_int (x c),
                 tile_row = sqlite3_bind_int (y c), tile_data = blob\<rparr>"
  have "?r \<in> set (db s')"
    using insertBlob_Inr [OF ins] by simp
  then have "tile_id (scast (zoom c)) (scast (x c)) (scast (y c)) \<in> tiles s''"
    using MBTiler_open_Inr [OF reopen] by (force simp: column_bind)
  moreover have "(scast (zoom c) :: uint64) = ucast (zoom c)"
    by (rule scast_small [OF assms(1)]) simp
  moreover have "(scast (x c) :: uint64) = ucast (x c)"
    by (rule scast_small [OF assms(2)]) simp
  moreover have "(scast (y c) :: uint64) = ucast (y c)"
    by (rule scast_small [OF assms(3)]) simp
  ultimately show ?thesis
    by (simp add: testTileExists_def)
qed

text \<open>
  C3. The store cannot be closed as the claim supposes. On the store constructed on an
  empty file, after a successful \<open>insertBlob\<close> for the coordinate (3,5,7), the destructor
  finalizes \<open>insertTileStmt\<close> a second time, which is a use of a freed statement, and it
  does so on every store whose two statements were prepared; \<open>replaceMetaStmt\<close> is still
  live when that happens.
\<close>

theorem destructor_finalizes_insert_statement_twice:
  "MBTiler_open healthy [] = Inr empty_store
   \<and> insertBlob step_done [1, 2] 3 5 7 empty_store
       = (Inr (), empty_store\<lparr>db := [\<lparr>zoom_level = 3, tile_column = 5, tile_row = 7,
                                           tile_data = [1, 2]\<rparr>]\<rparr>)
   \<and> MBTiler_destructor
        (empty_store\<lparr>db := [\<lparr>zoom_level = 3, tile_column = 5, tile_row = 7,
                                   tile_data = [1, 2]\<rparr>]\<rparr>)
       = (Inl Use_after_free,
          empty_store\<lparr>db := [\<lparr>zoom_level = 3, tile_column = 5, tile_row = 7,
                                   tile_data = [1, 2]\<rparr>],
                       insertTileStmt := Finalized_stmt\<rparr>)
   \<and> fst (MBTiler_destructor (s\<lparr>insertTileStmt := Live_stmt, replaceMetaStmt := Live_stmt\<rparr>))
       = Inl Use_after_free
   \<and> replaceMetaStmt (snd (MBTiler_destructor
        (s\<lparr>insertTileStmt := Live_stmt, replaceMetaStmt := Live_stmt\<rparr>))) = Live_stmt"
  by (simp add: MBTiler_open_healthy insertBlob_done MBTiler_destructor_def empty_store_def
      sqlite3_bind_int_def)

section \<open>The resume gate\<close>

text \<open>
  C6. \<open>mustSerializeCoordinate\<close> returns true when resume mode is off, whatever the
  store; in resume mode it returns the negation of \<open>testTileExists\<close> at the coordinate's
  zoom, x and y. Over a store opened on a file that holds the tile (0,0,0),
  it returns false for (0,0,0) and true for (0,1,0).
\<close>

theorem mustSerializeCoordinate_gate:
  "mustSerializeCoordinate False mbtiler c = Inr True
   \<and> mustSerializeCoordinate True (Some m) c = Inr (\<not> testTileExists m (zoom c) (x c) (y c))
   \<and> (MBTiler_open env [\<lparr>zoom_level = 0, tile_column = 0, tile_row = 0, tile_data = blob\<rparr>] = Inr opened
      \<longrightarrow> mustSerializeCoordinate True (Some opened) (coord 0 0 0) = Inr False
        \<and> mustSerializeCoordinate True (Some opened) (coord 0 1 0) = Inr True)"
proof -
  have "mustSerializeCoordinate True (Some opened) (coord 0 0 0) = Inr False
        \<and> mustSerializeCoordinate True (Some opened) (coord 0 1 0) = Inr True"
    if "MBTiler_open env [\<lparr>zoom_level = 0, tile_column = 0, tile_row = 0, tile_data = blob\<rparr>] = Inr opened"
    using MBTiler_open_Inr [OF that]
    by (simp add: mustSerializeCoordinate_def testTileExists_def coord_def tile_id_def
        sqlite3_column_int_def)
  then show ?thesis by (simp add: mustSerializeCoordinate_def)
qed

theorem mustSerializeCoordinate_gate_witness:
  "MBTiler_open healthy [\<lparr>zoom_level = 0, tile_column = 0, tile_row = 0, tile_data = [9]\<rparr>]
     = Inr \<lparr>db = [\<lparr>zoom_level = 0, tile_column = 0, tile_row = 0, tile_data = [9]\<rparr>], tiles = {0}, mtx = False,
            insertTileStmt = Live_stmt, replaceMetaStmt = Live_stmt, partial_pages = False\<rparr>
   \<and> mustSerializeCoordinate True
        (Some \<lparr>db = [\<lparr>zoom_level = 0, tile_column = 0, tile_row = 0, tile_data = [9]\<rparr>], tiles = {0}, mtx = False,
            insertTileStmt = Live_stmt, replaceMetaStmt = Live_stmt, partial_pages = False\<rparr>)
        (coord 0 0 0) = Inr False
   \<and> mustSerializeCoordinate True
        (Some \<lparr>db = [\<lparr>zoom_level = 0, tile_column = 0, tile_row = 0, tile_data = [9]\<rparr>], tiles = {0}, mtx = False,
            insertTileStmt = Live_stmt, replaceMetaStmt = Live_stmt, partial_pages = False\<rparr>)
        (coord 0 1 0) = Inr True"
proof -
  have o: "MBTiler_open healthy [\<lparr>zoom_level = 0, tile_column = 0, tile_row = 0, tile_data = [9]\<rparr>]
     = Inr \<lparr>db = [\<lparr>zoom_level = 0, tile_column = 0, tile_row = 0, tile_data = [9]\<rparr>], tiles = {0}, mtx = False,
            insertTileStmt = Live_stmt, replaceMetaStmt = Live_stmt, partial_pages = False\<rparr>"
    by (simp add: MBTiler_open_healthy tile_id_def sqlite3_column_int_def)
  from mustSerializeCoordinate_gate [where env = healthy and blob = "[9]" and opened =
      "\<lparr>db = [\<lparr>zoom_level = 0, tile_column = 0, tile_row = 0, tile_data = [9]\<rparr>], tiles = {0}, mtx = False,
            insertTileStmt = Live_stmt, replaceMetaStmt = Live_stmt, partial_pages = False\<rparr>"] o
  show ?thesis by blast
qed

section \<open>Inserts and the in-memory index\<close>





section \<open>The insert mutex\<close>

text \<open>
  C9. On a store opened on an empty file, an \<open>insertBlob\<close> whose \<open>sqlite3_step\<close> fails
  (here with SQLITE_FULL) throws with the mutex still locked, and the next \<open>insertBlob\<close>,
  whose own step would succeed, never gets past \<open>mtx.lock()\<close>. In general, after a call
  on a store whose mutex is free, the mutex is locked exactly when the step did not
  report SQLITE_DONE.
\<close>

theorem insertBlob_failure_keeps_mutex:
  "insertBlob step_full [] 0 0 0 empty_store
     = (Inl (Thrown_runtime_error_ptr ''SQLite Error: database or disk is full''), empty_store\<lparr>mtx := True\<rparr>)
   \<and> insertBlob step_done [] 0 1 0 (empty_store\<lparr>mtx := True\<rparr>)
     = (Inl Blocked_on_mutex, empty_store\<lparr>mtx := True\<rparr>)
   \<and> mtx (snd (insertBlob (rc, msg, pages) blob z col row (s\<lparr>mtx := False\<rparr>)))
     = (rc \<noteq> SQLITE_DONE)"
  by (simp add: insertBlob_def step_full_def step_done_def empty_store_def SQLITE_DONE_def Let_def)

section \<open>What the process returns\<close>

text \<open>
  C8. A worker whose build throws a \<open>CTBException\<close> prints the message and returns 0, so
  a run of two workers, one of which fails with "Compression failed", ends with \<open>main\<close>
  returning 0; and so does a run in which every worker fails that way, whatever the
  number of workers and the messages.
\<close>

theorem main_returns_zero_after_CTBException:
  "runTiler True (Some (Thrown_CTBException what)) = ([''Error: '' @ what], Inr 0)
   \<and> main ''geodetic'' [(True, Some (Thrown_CTBException ''Compression failed'')), (True, None)] = Inr 0
   \<and> main ''geodetic'' (map (\<lambda>what. (True, Some (Thrown_CTBException what))) whats) = Inr 0"
proof -
  have "first_problem (map (\<lambda>what. snd (runTiler True (Some (Thrown_CTBException what)))) whats) = Inr 0"
    by (induction whats) (simp_all add: runTiler_def)
  then show ?thesis by (simp add: runTiler_def main_def comp_def)
qed


section \<open>The compressor, serializeTile and the store\<close>




text \<open>
  C4. Whatever the library does, a call of \<open>write\<close> never returns normally: when
  \<open>deflateRound\<close> comes back, control reaches the end of \<open>write\<close> without a \<open>return\<close>
  statement. So in a cycle of \<open>reset\<close>, \<open>write\<close> of a one-byte payload and \<open>finish\<close>, the
  \<open>write\<close> has undefined behaviour, here with a library that accepts the byte, and no
  payload is streamed by \<open>writeFile\<close> unless it is empty.
\<close>

theorem write_reaches_end_without_return:
  "write_z zl ptr s \<noteq> Some (Inr u, s')
   \<and> write_z copying_zlib [1] (reset copying_zlib fresh_stream)
       = Some (Inl Missing_return, fresh_stream\<lparr>buffer := [1]\<rparr>)
   \<and> writeFile zl (b # bs) s \<noteq> Some (Inr u, s')"
proof -
  have 1: "write_z zl ptr s \<noteq> Some (Inr u, s')" for zl :: "'z zlib" and ptr s u s'
    by (simp add: write_z_def split: option.splits sum.splits prod.splits)
  have "deflateRound copying_zlib [1] Z_NO_FLUSH (reset copying_zlib fresh_stream)
      = Some (Inr (), fresh_stream\<lparr>buffer := [1]\<rparr>)"
    unfolding deflateRound_def
    by (subst deflateRound_loop.simps)
      (simp add: copying_zlib_def reset_def fresh_stream_def Let_def Z_STREAM_ERROR_def
        Z_NO_FLUSH_def Z_FINISH_def TMPSIZE_def)
  then have 2: "write_z copying_zlib [1] (reset copying_zlib fresh_stream)
       = Some (Inl Missing_return, fresh_stream\<lparr>buffer := [1]\<rparr>)"
    by (simp add: write_z_def)
  have 3: "writeFile zl (b # bs) s \<noteq> Some (Inr u, s')"
    using 1 [of zl b s]
    by (cases "write_z zl b s") (auto split: sum.splits prod.splits)
  from 1 2 3 show ?thesis by blast
qed




lemma serializeTile_diverges_in_compressor:
  assumes "serializeTile zl step tile normals (Some m) gz = None"
  shows "writeFile zl (file_blocks tile normals) (reset zl gz) = None
    \<or> (\<exists>g. writeFile zl (file_blocks tile normals) (reset zl gz) = Some (Inr (), g)
          \<and> finish zl g = None)"
  using assms
  by (auto simp: serializeTile_def split: option.splits sum.splits prod.splits)







section \<open>Claiming tiles exactly once\<close>

lemma increment_drop: "increment it = drop 1 it"
  by (cases it) (simp_all add: increment_def)

lemma catch_up_closed:
  "catch_up g it c = (if c < g then (drop (nat (g - c)) it, g) else (it, c))"
proof (induction g it c rule: catch_up.induct)
  case (1 g it c)
  show ?case
  proof (cases "c < g")
    case True
    have "nat (g - c) = Suc (nat (g - (c + 1)))" using True by simp
    then show ?thesis using True 1
      by (subst catch_up.simps) (auto simp: increment_drop)
  next
    case False
    then show ?thesis by (subst catch_up.simps) simp
  qed
qed

lemma incrementIterator_caught_up:
  assumes "c \<le> g" "0 \<le> c" "it = drop (nat c) enumeration"
  shows "incrementIterator it c g =
    (if g = INT_MAX then Inl Signed_overflow else Inr (g, drop (nat g) enumeration, g + 1))"
proof -
  have cu: "catch_up g it c = (drop (nat g) enumeration, g)"
  proof (cases "c < g")
    case True
    have "nat (g - c) + nat c = nat g" using assms(1,2) by linarith
    then have "drop (nat (g - c)) (drop (nat c) enumeration) = drop (nat g) enumeration"
      by (simp only: drop_drop)
    then show ?thesis using True assms(3) by (simp only: catch_up_closed if_True)
  next
    case False
    then have "c = g" using assms(1) by simp
    then show ?thesis using assms(3) by (simp add: catch_up_closed)
  qed
  show ?thesis by (simp add: incrementIterator_def cu)
qed

lemma filter_update_gain:
  "i < length xs \<Longrightarrow> \<not> P (xs ! i) \<Longrightarrow> P v \<Longrightarrow>
     length (filter P (xs[i := v])) = Suc (length (filter P xs))"
proof (induction xs arbitrary: i)
  case Nil
  then show ?case by simp
next
  case (Cons a xs)
  then show ?case by (cases i) auto
qed

lemma filter_update_same:
  "i < length xs \<Longrightarrow> \<not> P (xs ! i) \<Longrightarrow> \<not> P v \<Longrightarrow>
     length (filter P (xs[i := v])) = length (filter P xs)"
proof (induction xs arbitrary: i)
  case Nil
  then show ?case by simp
next
  case (Cons a xs)
  then show ?case by (cases i) auto
qed

lemma filter_some_out:
  "i < length xs \<Longrightarrow> \<not> P (xs ! i) \<Longrightarrow> length (filter P xs) < length xs"
  by (metis length_filter_less nth_mem)

text \<open>What a step does for a worker that is still in its loop.\<close>

lemma worker_step_live:
  assumes inv: "coordinated enumeration W st"
    and w: "w < W" "\<not> left_loop (workers st ! w)"
  shows "worker_step w st =
    (if globalIteratorIndex st = INT_MAX then Inl Signed_overflow
     else Inr \<lparr>globalIteratorIndex = globalIteratorIndex st + 1,
               workers = (workers st)[w := \<lparr>iter = drop (nat (globalIteratorIndex st)) enumeration,
                    currentIndex = globalIteratorIndex st,
                    left_loop = (int (length enumeration) \<le> globalIteratorIndex st)\<rparr>],
               claims = claims st @ [(w, globalIteratorIndex st,
                    if int (length enumeration) \<le> globalIteratorIndex st then None
                    else Some (enumeration ! nat (globalIteratorIndex st)))]\<rparr>)"
proof -
  let ?wk = "workers st ! w"
  have len: "length (workers st) = W" using inv by (simp add: coordinated_def)
  then have mem: "?wk \<in> set (workers st)" using w by simp
  have wk: "0 \<le> currentIndex ?wk" "currentIndex ?wk \<le> globalIteratorIndex st"
    "iter ?wk = drop (nat (currentIndex ?wk)) enumeration"
    using inv mem unfolding coordinated_def by blast+
  have g0: "0 \<le> globalIteratorIndex st" using inv by (simp add: coordinated_def)
  have ex: "exhausted (drop (nat (globalIteratorIndex st)) enumeration)
      = (int (length enumeration) \<le> globalIteratorIndex st)"
    using g0 by (auto simp: exhausted_def)
  have hd: "\<not> int (length enumeration) \<le> globalIteratorIndex st \<Longrightarrow>
     hd (drop (nat (globalIteratorIndex st)) enumeration) = enumeration ! nat (globalIteratorIndex st)"
    using g0 by (simp add: hd_drop_conv_nth)
  show ?thesis
    using w len hd
    by (simp add: worker_step_def incrementIterator_caught_up [OF wk(2) wk(1) wk(3)] ex)
qed

lemma worker_step_idle:
  "length (workers st) \<le> w \<or> left_loop (workers st ! w) \<Longrightarrow> worker_step w st = Inr st"
  by (simp add: worker_step_def)


lemma worker_step_coordinated:
  assumes inv: "coordinated enumeration W st" and step: "worker_step w st = Inr st'"
  shows "coordinated enumeration W st'"
proof (cases "length (workers st) \<le> w \<or> left_loop (workers st ! w)")
  case True
  then show ?thesis using inv step by (simp add: worker_step_idle)
next
  case False
  let ?g = "globalIteratorIndex st"
  let ?L = "int (length enumeration)"
  let ?wk = "\<lparr>iter = drop (nat ?g) enumeration, currentIndex = ?g, left_loop = (?L \<le> ?g)\<rparr>"
  have len: "length (workers st) = W" and g0: "0 \<le> ?g"
    and ci: "claimed_indices st = map int [0..<nat ?g]"
    and cc: "claimed_coordinates st = take (nat ?g) enumeration"
    and bd: "?g \<le> ?L + int (length (filter left_loop (workers st)))"
    and wks: "\<And>wk. wk \<in> set (workers st) \<Longrightarrow>
            0 \<le> currentIndex wk \<and> currentIndex wk \<le> ?g
            \<and> iter wk = drop (nat (currentIndex wk)) enumeration
            \<and> (left_loop wk \<longrightarrow> ?L \<le> currentIndex wk)"
    using inv unfolding coordinated_def by blast+
  have w: "w < W" "\<not> left_loop (workers st ! w)" using False len by auto
  have st': "st' = \<lparr>globalIteratorIndex = ?g + 1,
               workers = (workers st)[w := ?wk],
               claims = claims st @ [(w, ?g, if ?L \<le> ?g then None else Some (enumeration ! nat ?g))]\<rparr>"
    using step worker_step_live [OF inv w] by (simp split: if_splits)
  have nat_g: "nat (?g + 1) = Suc (nat ?g)" using g0 by simp
  have 1: "0 \<le> globalIteratorIndex st'" using g0 st' by simp
  have 2: "length (workers st') = W" using len st' by simp
  have 3: "0 \<le> currentIndex wk \<and> currentIndex wk \<le> globalIteratorIndex st'
            \<and> iter wk = drop (nat (currentIndex wk)) enumeration
            \<and> (left_loop wk \<longrightarrow> ?L \<le> currentIndex wk)"
    if "wk \<in> set (workers st')" for wk
  proof -
    from that have "wk = ?wk \<or> wk \<in> set (workers st)"
      using set_update_subset_insert [of "workers st" w ?wk] st' by auto
    then show ?thesis
    proof
      assume "wk = ?wk"
      then show ?thesis using g0 st' by simp
    next
      assume "wk \<in> set (workers st)"
      from wks [OF this] show ?thesis using st' by simp
    qed
  qed
  have 4: "claimed_indices st' = map int [0..<nat (globalIteratorIndex st')]"
    using ci st' g0 by (simp add: claimed_indices_def nat_g)
  have 5: "claimed_coordinates st' = take (nat (globalIteratorIndex st')) enumeration"
  proof (cases "?L \<le> ?g")
    case True
    then have "length enumeration \<le> nat ?g" by simp
    then show ?thesis using cc st' True
      by (simp add: claimed_coordinates_def map_filter_def nat_g)
  next
    case False
    then have "nat ?g < length enumeration" using g0 by simp
    then show ?thesis using cc st' False
      by (simp add: claimed_coordinates_def map_filter_def nat_g take_Suc_conv_app_nth)
  qed
  have 6: "globalIteratorIndex st' \<le> ?L + int (length (filter left_loop (workers st')))"
  proof (cases "?L \<le> ?g")
    case True
    have "length (filter left_loop ((workers st)[w := ?wk])) = Suc (length (filter left_loop (workers st)))"
      using w len True by (intro filter_update_gain) simp_all
    then show ?thesis using bd st' by simp
  next
    case False
    have "length (filter left_loop ((workers st)[w := ?wk])) = length (filter left_loop (workers st))"
      using w len False by (intro filter_update_same) simp_all
    then show ?thesis using False st' by simp
  qed
  from 1 2 3 4 5 6 show ?thesis unfolding coordinated_def by blast
qed

lemma worker_step_no_overflow:
  assumes inv: "coordinated enumeration W st"
    and bound: "int (length enumeration) + int W \<le> INT_MAX"
  shows "\<exists>st'. worker_step w st = Inr st'"
proof (cases "length (workers st) \<le> w \<or> left_loop (workers st ! w)")
  case True
  then show ?thesis by (simp add: worker_step_idle)
next
  case False
  have len: "length (workers st) = W"
    and bd: "globalIteratorIndex st \<le> int (length enumeration) + int (length (filter left_loop (workers st)))"
    using inv unfolding coordinated_def by blast+
  have w: "w < W" "\<not> left_loop (workers st ! w)" using False len by auto
  have "length (filter left_loop (workers st)) < W"
    using filter_some_out [of w "workers st" left_loop] w len by simp
  then have "globalIteratorIndex st < INT_MAX" using bd bound by linarith
  then show ?thesis using worker_step_live [OF inv w] by simp
qed

lemma start_coordinated: "coordinated enumeration W (start enumeration W)"
  by (simp add: coordinated_def start_def claimed_indices_def claimed_coordinates_def
      map_filter_def)

lemma run_coordinated:
  assumes "coordinated enumeration W st" "run schedule st = Inr st'"
  shows "coordinated enumeration W st'"
  using assms
proof (induction schedule arbitrary: st)
  case Nil
  then show ?case by simp
next
  case (Cons w ws)
  then show ?case
    by (auto split: sum.splits dest: worker_step_coordinated)
qed

lemma run_no_overflow:
  assumes "coordinated enumeration W st" "int (length enumeration) + int W \<le> INT_MAX"
  shows "\<exists>st'. run schedule st = Inr st'"
  using assms(1)
proof (induction schedule arbitrary: st)
  case Nil
  then show ?case by simp
next
  case (Cons w ws)
  from worker_step_no_overflow [OF Cons.prems assms(2)]
  obtain st1 where s: "worker_step w st = Inr st1" by blast
  from Cons.IH [OF worker_step_coordinated [OF Cons.prems s]] s show ?case by simp
qed


lemma worker_step_paced:
  assumes inv: "coordinated enumeration W st" and p: "paced enumeration k st"
    and step: "worker_step w st = Inr st'"
  shows "paced enumeration (k(w := Suc (k w))) st'"
proof (cases "length (workers st) \<le> w \<or> left_loop (workers st ! w)")
  case True
  then have "st' = st" using step by (simp add: worker_step_idle)
  then show ?thesis using p True unfolding paced_def by auto
next
  case False
  let ?g = "globalIteratorIndex st"
  let ?L = "int (length enumeration)"
  let ?wk = "\<lparr>iter = drop (nat ?g) enumeration, currentIndex = ?g, left_loop = (?L \<le> ?g)\<rparr>"
  have len: "length (workers st) = W" and g0: "0 \<le> ?g"
    using inv unfolding coordinated_def by blast+
  have w: "w < W" "\<not> left_loop (workers st ! w)" using False len by auto
  have st': "st' = \<lparr>globalIteratorIndex = ?g + 1,
               workers = (workers st)[w := ?wk],
               claims = claims st @ [(w, ?g, if ?L \<le> ?g then None else Some (enumeration ! nat ?g))]\<rparr>"
    using step worker_step_live [OF inv w] by (simp split: if_splits)
  show ?thesis unfolding paced_def
  proof (intro allI impI)
    fix v
    assume v: "v < length (workers st')"
      and live: "\<not> left_loop (workers st' ! v) \<and> 0 < (k(w := Suc (k w))) v"
    show "int ((k(w := Suc (k w))) v) \<le> currentIndex (workers st' ! v) + 1
          \<and> currentIndex (workers st' ! v) < ?L
          \<and> currentIndex (workers st' ! v) < globalIteratorIndex st'"
    proof (cases "v = w")
      case True
      then have wk': "workers st' ! v = ?wk" using st' w len by simp
      have "int (k w) \<le> ?g"
      proof (cases "0 < k w")
        case True
        then show ?thesis using p w len unfolding paced_def by fastforce
      next
        case False
        then show ?thesis using g0 by simp
      qed
      then show ?thesis using wk' live True st' by simp
    next
      case False
      then have same: "workers st' ! v = workers st ! v" "(k(w := Suc (k w))) v = k v"
        using st' by simp_all
      have "v < length (workers st)" using v st' by simp
      then show ?thesis using p live same st' unfolding paced_def by fastforce
    qed
  qed
qed

lemma run_paced:
  assumes "coordinated enumeration W st" "paced enumeration k st" "run schedule st = Inr st'"
  shows "paced enumeration (\<lambda>v. k v + count_list schedule v) st'"
  using assms
proof (induction schedule arbitrary: st k)
  case Nil
  then show ?case by simp
next
  case (Cons w ws)
  from Cons.prems(3) obtain st1 where s: "worker_step w st = Inr st1" and r: "run ws st1 = Inr st'"
    by (auto split: sum.splits)
  have "paced enumeration (\<lambda>v. (k(w := Suc (k w))) v + count_list ws v) st'"
    by (rule Cons.IH [OF worker_step_coordinated [OF Cons.prems(1) s]
          worker_step_paced [OF Cons.prems(1,2) s] r])
  moreover have "(\<lambda>v. (k(w := Suc (k w))) v + count_list ws v) = (\<lambda>v. k v + count_list (w # ws) v)"
    by (rule ext) simp
  ultimately show ?case by simp
qed

lemma start_paced: "paced enumeration (\<lambda>v. 0) (start enumeration W)"
  by (simp add: paced_def)

lemma fair_run_all_left:
  assumes r: "run schedule (start enumeration W) = Inr st"
    and fair: "\<forall>w < W. length enumeration < count_list schedule w"
  shows "all_left st"
proof -
  have inv: "coordinated enumeration W st"
    by (rule run_coordinated [OF start_coordinated r])
  then have len: "length (workers st) = W" by (simp add: coordinated_def)
  have p: "paced enumeration (count_list schedule) st"
    using run_paced [OF start_coordinated start_paced r] by simp
  have "left_loop (workers st ! w)" if "w < length (workers st)" for w
  proof (rule ccontr)
    assume nl: "\<not> left_loop (workers st ! w)"
    have c: "length enumeration < count_list schedule w" using fair that len by simp
    then have "0 < count_list schedule w" by simp
    with p nl that have "int (count_list schedule w) \<le> currentIndex (workers st ! w) + 1"
      "currentIndex (workers st ! w) < int (length enumeration)"
      unfolding paced_def by blast+
    with c show False by linarith
  qed
  then show ?thesis by (simp add: all_left_def list_all_length)
qed

lemma all_left_covers:
  assumes inv: "coordinated enumeration W st" and W: "1 \<le> W" and al: "all_left st"
  shows "int (length enumeration) \<le> globalIteratorIndex st"
proof -
  have len: "length (workers st) = W" using inv by (simp add: coordinated_def)
  then have "workers st ! 0 \<in> set (workers st)" using W by simp
  moreover have "left_loop (workers st ! 0)"
    using al len W by (simp add: all_left_def list_all_length)
  ultimately show ?thesis using inv unfolding coordinated_def by force
qed

lemma filter_below:
  "filter (\<lambda>i. i < int n) (map int [0..<n + d]) = map int [0..<n]"
proof (induction d)
  case 0
  have "\<forall>i \<in> set (map int [0..<n]). i < int n" by simp
  then show ?case by (simp only: filter_True add_0_right)
next
  case (Suc d)
  have "[0..<n + Suc d] = [0..<n + d] @ [n + d]" by simp
  then show ?case using Suc by simp
qed

lemma upt_increasing: "sorted_wrt (<) (map int [0..<n]) \<and> distinct (map int [0..<n])"
  by (induction n) (auto simp: sorted_wrt_append)

text \<open>
  C1, amended. For every canonical enumeration of length \<open>L\<close> and every number of workers
  \<open>W\<close> with \<open>L + W \<le> INT_MAX\<close>, and whatever the order in which the workers are granted
  the mutex: no call overflows the counter; the indices returned, in the order of the
  calls, are \<open>0, 1, ..., globalIteratorIndex - 1\<close> (each once, strictly increasing), and
  the coordinates taken are the first \<open>globalIteratorIndex\<close> elements of the enumeration
  in its order; when all of \<open>W \<ge> 1\<close> workers have left their loops the coordinates taken
  are the whole enumeration and the indices below \<open>L\<close> are \<open>0, ..., L - 1\<close>; and every
  schedule that grants each worker more than \<open>L\<close> steps ends with all workers out of
  their loops.
\<close>

theorem claims_exactly_once:
  assumes bound: "int (length enumeration) + int W \<le> INT_MAX"
  shows "\<exists>st. run schedule (start enumeration W) = Inr st
    \<and> claimed_indices st = map int [0..<nat (globalIteratorIndex st)]
    \<and> sorted_wrt (<) (claimed_indices st) \<and> distinct (claimed_indices st)
    \<and> claimed_coordinates st = take (nat (globalIteratorIndex st)) enumeration
    \<and> (1 \<le> W \<and> all_left st \<longrightarrow>
          claimed_coordinates st = enumeration
          \<and> filter (\<lambda>i. i < int (length enumeration)) (claimed_indices st)
              = map int [0..<length enumeration])
    \<and> ((\<forall>w < W. length enumeration < count_list schedule w) \<longrightarrow> all_left st)"
proof -
  from run_no_overflow [OF start_coordinated bound]
  obtain st where r: "run schedule (start enumeration W) = Inr st" by blast
  have inv: "coordinated enumeration W st"
    by (rule run_coordinated [OF start_coordinated r])
  then have ci: "claimed_indices st = map int [0..<nat (globalIteratorIndex st)]"
    and cc: "claimed_coordinates st = take (nat (globalIteratorIndex st)) enumeration"
    unfolding coordinated_def by blast+
  have fin: "claimed_coordinates st = enumeration
          \<and> filter (\<lambda>i. i < int (length enumeration)) (claimed_indices st)
              = map int [0..<length enumeration]"
    if "1 \<le> W" "all_left st"
  proof -
    from all_left_covers [OF inv that] have ge: "length enumeration \<le> nat (globalIteratorIndex st)"
      by simp
    then obtain d where d: "nat (globalIteratorIndex st) = length enumeration + d"
      using le_Suc_ex by blast
    have "claimed_coordinates st = enumeration" using cc ge by simp
    moreover have "filter (\<lambda>i. i < int (length enumeration)) (claimed_indices st)
        = map int [0..<length enumeration]"
      by (simp only: ci d filter_below)
    ultimately show ?thesis by simp
  qed
  have inc: "sorted_wrt (<) (claimed_indices st) \<and> distinct (claimed_indices st)"
    by (simp only: ci upt_increasing)
  from r ci cc inc fin fair_run_all_left [OF r] show ?thesis by blast
qed


lemma two_worker_run:
  "run two_worker_schedule (start five_coordinates 2) =
     Inr \<lparr>globalIteratorIndex = 7,
          workers = [\<lparr>iter = [], currentIndex = 6, left_loop = True\<rparr>,
                     \<lparr>iter = [], currentIndex = 5, left_loop = True\<rparr>],
          claims = [(0, 0, Some (coord 0 0 0)), (1, 1, Some (coord 0 1 0)),
                    (1, 2, Some (coord 0 0 1)), (0, 3, Some (coord 0 1 1)),
                    (0, 4, Some (coord 1 0 0)), (1, 5, None), (0, 6, None)]\<rparr>"
  by (simp add: two_worker_schedule_def start_def five_coordinates_def worker_step_def
      incrementIterator_def catch_up_closed exhausted_def INT_MAX_def numeral_2_eq_2)

theorem claims_exactly_once_witness:
  "int (length five_coordinates) + int 2 \<le> INT_MAX
   \<and> length five_coordinates < count_list two_worker_schedule 0
   \<and> length five_coordinates < count_list two_worker_schedule 1
   \<and> run two_worker_schedule (start five_coordinates 2) =
     Inr \<lparr>globalIteratorIndex = 7,
          workers = [\<lparr>iter = [], currentIndex = 6, left_loop = True\<rparr>,
                     \<lparr>iter = [], currentIndex = 5, left_loop = True\<rparr>],
          claims = [(0, 0, Some (coord 0 0 0)), (1, 1, Some (coord 0 1 0)),
                    (1, 2, Some (coord 0 0 1)), (0, 3, Some (coord 0 1 1)),
                    (0, 4, Some (coord 1 0 0)), (1, 5, None), (0, 6, None)]\<rparr>
   \<and> all_left \<lparr>globalIteratorIndex = 7,
          workers = [\<lparr>iter = [], currentIndex = 6, left_loop = True\<rparr>,
                     \<lparr>iter = [], currentIndex = 5, left_loop = True\<rparr>],
          claims = [(0, 0, Some (coord 0 0 0)), (1, 1, Some (coord 0 1 0)),
                    (1, 2, Some (coord 0 0 1)), (0, 3, Some (coord 0 1 1)),
                    (0, 4, Some (coord 1 0 0)), (1, 5, None), (0, 6, None)]\<rparr>
   \<and> claimed_coordinates \<lparr>globalIteratorIndex = 7,
          workers = [\<lparr>iter = [], currentIndex = 6, left_loop = True\<rparr>,
                     \<lparr>iter = [], currentIndex = 5, left_loop = True\<rparr>],
          claims = [(0, 0, Some (coord 0 0 0)), (1, 1, Some (coord 0 1 0)),
                    (1, 2, Some (coord 0 0 1)), (0, 3, Some (coord 0 1 1)),
                    (0, 4, Some (coord 1 0 0)), (1, 5, None), (0, 6, None)]\<rparr>
     = five_coordinates"
proof -
  have b: "int (length five_coordinates) + int 2 \<le> INT_MAX"
    by (simp add: five_coordinates_def INT_MAX_def)
  have f: "\<forall>w < 2. length five_coordinates < count_list two_worker_schedule w"
    by (simp add: five_coordinates_def two_worker_schedule_def less_2_cases_iff)
  from claims_exactly_once [OF b, of two_worker_schedule] f two_worker_run b
  show ?thesis
    by (auto simp: five_coordinates_def two_worker_schedule_def)
qed

lemma run_append:
  "run (xs @ ys) st = (case run xs st of Inl e \<Rightarrow> Inl e | Inr st' \<Rightarrow> run ys st')"
  by (induction xs arbitrary: st) (auto split: sum.splits)

lemma single_worker_run:
  assumes "n \<le> length enumeration" "int n \<le> INT_MAX"
  shows "\<exists>st. run (replicate n 0) (start enumeration 1) = Inr st
     \<and> coordinated enumeration 1 st \<and> globalIteratorIndex st = int n
     \<and> \<not> left_loop (workers st ! 0)"
  using assms
proof (induction n)
  case 0
  then show ?case using start_coordinated [of enumeration 1] by (simp add: start_def)
next
  case (Suc n)
  then obtain st where st: "run (replicate n 0) (start enumeration 1) = Inr st"
    "coordinated enumeration 1 st" "globalIteratorIndex st = int n" "\<not> left_loop (workers st ! 0)"
    by auto
  have len: "length (workers st) = 1" using st(2) by (simp add: coordinated_def)
  have rep: "replicate (Suc n) (0::nat) = replicate n 0 @ [0]"
    by (simp only: replicate_Suc replicate_append_same)
  have ne: "globalIteratorIndex st \<noteq> INT_MAX" using st(3) Suc.prems(2) by simp
  have nl: "\<not> int (length enumeration) \<le> globalIteratorIndex st" using st(3) Suc.prems(1) by simp
  let ?st' = "\<lparr>globalIteratorIndex = globalIteratorIndex st + 1,
               workers = (workers st)[0 := \<lparr>iter = drop (nat (globalIteratorIndex st)) enumeration,
                    currentIndex = globalIteratorIndex st,
                    left_loop = (int (length enumeration) \<le> globalIteratorIndex st)\<rparr>],
               claims = claims st @ [(0, globalIteratorIndex st,
                    if int (length enumeration) \<le> globalIteratorIndex st then None
                    else Some (enumeration ! nat (globalIteratorIndex st)))]\<rparr>"
  have step: "worker_step 0 st = Inr ?st'"
    using worker_step_live [OF st(2) _ st(4)] ne by simp
  have "run (replicate (Suc n) 0) (start enumeration 1) = Inr ?st'"
    by (simp only: rep run_append st(1) sum.case run.simps step)
  moreover have "coordinated enumeration 1 ?st'"
    by (rule worker_step_coordinated [OF st(2) step])
  moreover have "globalIteratorIndex ?st' = int (Suc n)" using st(3) by simp
  moreover have "\<not> left_loop (workers ?st' ! 0)" using len nl by simp
  ultimately show ?case by blast
qed

text \<open>
  C1, as stated for every length, fails: with one worker and an enumeration of \<open>2^31\<close>
  coordinates, the call that follows the claim of index \<open>2^31 - 2\<close> finds
  \<open>globalIteratorIndex\<close> at \<open>INT_MAX\<close> and overflows it while the last coordinate is
  still to be claimed.
\<close>

theorem claims_overflow_counterexample:
  "run (replicate 2147483648 0) (start (replicate 2147483648 ()) 1) = Inl Signed_overflow"
proof -
  let ?e = "replicate 2147483648 ()"
  have "\<exists>st. run (replicate 2147483647 0) (start ?e 1) = Inr st
     \<and> coordinated ?e 1 st \<and> globalIteratorIndex st = int 2147483647
     \<and> \<not> left_loop (workers st ! 0)"
    by (rule single_worker_run) (simp_all add: INT_MAX_def)
  then obtain st where st: "run (replicate 2147483647 0) (start ?e 1) = Inr st"
    "coordinated ?e 1 st" "globalIteratorIndex st = 2147483647" "\<not> left_loop (workers st ! 0)"
    by auto
  have step: "worker_step 0 st = Inl Signed_overflow"
    using worker_step_live [OF st(2) _ st(4)] st(3) by (simp add: INT_MAX_def)
  have "(2147483648::nat) = Suc 2147483647" by simp
  then have rep: "replicate 2147483648 (0::nat) = replicate 2147483647 0 @ [0]"
    by (simp only: replicate_Suc replicate_append_same)
  show ?thesis
    by (simp only: rep run_append st(1) sum.case run.simps step)
qed



end
